theory Spec2Isabelle
  imports Main "HOL-Library.Word"
begin

section \<open>Data model of the peer set\<close>

text \<open>
  The peer set of package \<open>ong\<close> tracks the peers connected on the \<open>ong\<close> protocol,
  with or without their \<open>snap\<close> satellite connection. The protocol level peers
  (\<open>ong.Peer\<close>, \<open>snap.Peer\<close>) are declared outside the files modelled here; the peer set
  only reads their identifier, their negotiated capabilities, their advertised head
  and their sets of known hashes, so these are the fields of the records below.
\<close>

type_synonym hash = "256 word"  \<comment> \<open>\<open>common.Hash\<close>, 32 bytes\<close>

type_synonym address = "160 word"  \<comment> \<open>\<open>common.Address\<close>, 20 bytes\<close>

datatype error =
    errPeerSetClosed
  | errPeerAlreadyRegistered
  | errPeerNotRegistered
  | errSnapWithoutOng

record ong_Peer =
  ong_ID :: string  \<comment> \<open>\<open>peer.ID()\<close>\<close>
  ong_RunningSnap :: bool  \<comment> \<open>\<open>peer.RunningCap(snap.ProtocolName, snap.ProtocolVersions)\<close>\<close>
  Head :: "hash \<times> int"  \<comment> \<open>\<open>peer.Head()\<close>: head hash and total difficulty\<close>
  knownBlocks :: "hash set"
  knownTxs :: "hash set"

record snap_Peer =
  snap_ID :: string  \<comment> \<open>\<open>peer.ID()\<close>\<close>
  snap_RunningOng :: bool  \<comment> \<open>\<open>peer.RunningCap(ong.ProtocolName, ong.ProtocolVersions)\<close>\<close>

definition KnownBlock :: "ong_Peer \<Rightarrow> hash \<Rightarrow> bool" where
  "KnownBlock p h = (h \<in> knownBlocks p)"

definition KnownTransaction :: "ong_Peer \<Rightarrow> hash \<Rightarrow> bool" where
  "KnownTransaction p h = (h \<in> knownTxs p)"

text \<open>\<open>snapPeer\<close> wraps a \<open>snap.Peer\<close>; \<open>ongPeer\<close> wraps an \<open>ong.Peer\<close> together with its
  optional satellite connection (\<open>None\<close> is the nil pointer).\<close>

record snapPeer =
  snapPeer_Peer :: snap_Peer

record ongPeer =
  Peer :: ong_Peer
  snapExt :: "snapPeer option"

text \<open>
  A channel of \<open>snapWait\<close> is unbuffered and has exactly one receiver, the caller of
  \<open>waitSnapExtension\<close> that created it and is parked on it. It holds no data of its
  own: the entry of the map is the parked caller.
\<close>

type_synonym chan = unit

record peerSet =
  peers :: "string \<rightharpoonup> ongPeer"
  snapPeers :: int
  snapWait :: "string \<rightharpoonup> chan"
  snapPend :: "string \<rightharpoonup> snap_Peer"
  closed :: bool

definition newPeerSet :: peerSet where
  "newPeerSet = \<lparr>peers = Map.empty, snapPeers = 0, snapWait = Map.empty,
     snapPend = Map.empty, closed = False\<rparr>"

section \<open>Operations of the peer set\<close>

text \<open>
  Every operation runs under the lock of the set, so it is a function from the state
  before to the state after, together with what it returns. \<open>registerSnapExtension\<close>
  additionally reports the send \<open>wait <- peer\<close> it performs: the identifier whose
  parked caller receives the peer.
\<close>

definition registerSnapExtension ::
    "snap_Peer \<Rightarrow> peerSet \<Rightarrow> peerSet \<times> (string \<times> snap_Peer) option \<times> error option" where
  "registerSnapExtension peer ps =
     (if \<not> snap_RunningOng peer then (ps, None, Some errSnapWithoutOng)
      else
        let pid = snap_ID peer in
        if peers ps pid \<noteq> None then (ps, None, Some errPeerAlreadyRegistered)
        else if snapPend ps pid \<noteq> None then (ps, None, Some errPeerAlreadyRegistered)
        else
          (case snapWait ps pid of
             Some wait \<Rightarrow> (ps\<lparr>snapWait := (snapWait ps)(pid := None)\<rparr>, Some (pid, peer), None)
           | None \<Rightarrow> (ps\<lparr>snapPend := (snapPend ps)(pid \<mapsto> peer)\<rparr>, None, None)))"

text \<open>
  \<open>waitSnapExtension\<close> either returns at once, or parks its caller on a fresh channel
  stored in \<open>snapWait\<close> (\<open>Blocked\<close>). A parked caller returns \<open>(peer, nil)\<close> when a peer
  is sent on its channel; nothing else in the program completes the receive.
\<close>

datatype waitOutcome =
    Returned "snap_Peer option" "error option"
  | Blocked

definition waitSnapExtension :: "ong_Peer \<Rightarrow> peerSet \<Rightarrow> peerSet \<times> waitOutcome" where
  "waitSnapExtension peer ps =
     (if \<not> ong_RunningSnap peer then (ps, Returned None None)
      else
        let pid = ong_ID peer in
        if peers ps pid \<noteq> None then (ps, Returned None (Some errPeerAlreadyRegistered))
        else if snapWait ps pid \<noteq> None then (ps, Returned None (Some errPeerAlreadyRegistered))
        else
          (case snapPend ps pid of
             Some snap \<Rightarrow> (ps\<lparr>snapPend := (snapPend ps)(pid := None)\<rparr>, Returned (Some snap) None)
           | None \<Rightarrow> (ps\<lparr>snapWait := (snapWait ps)(pid \<mapsto> ())\<rparr>, Blocked)))"

definition received :: "snap_Peer \<Rightarrow> waitOutcome" where
  "received peer = Returned (Some peer) None"  \<comment> \<open>\<open>return <-wait, nil\<close>\<close>

definition registerPeer :: "ong_Peer \<Rightarrow> snap_Peer option \<Rightarrow> peerSet \<Rightarrow> peerSet \<times> error option" where
  "registerPeer peer ext ps =
     (if closed ps then (ps, Some errPeerSetClosed)
      else
        let pid = ong_ID peer in
        if peers ps pid \<noteq> None then (ps, Some errPeerAlreadyRegistered)
        else
          (case ext of
             Some e \<Rightarrow>
               (ps\<lparr>peers := (peers ps)(pid \<mapsto> \<lparr>Peer = peer, snapExt = Some \<lparr>snapPeer_Peer = e\<rparr>\<rparr>),
                   snapPeers := snapPeers ps + 1\<rparr>, None)
           | None \<Rightarrow>
               (ps\<lparr>peers := (peers ps)(pid \<mapsto> \<lparr>Peer = peer, snapExt = None\<rparr>)\<rparr>, None)))"

definition unregisterPeer :: "string \<Rightarrow> peerSet \<Rightarrow> peerSet \<times> error option" where
  "unregisterPeer pid ps =
     (case peers ps pid of
        None \<Rightarrow> (ps, Some errPeerNotRegistered)
      | Some peer \<Rightarrow>
          (if snapExt peer \<noteq> None
           then (ps\<lparr>peers := (peers ps)(pid := None), snapPeers := snapPeers ps - 1\<rparr>, None)
           else (ps\<lparr>peers := (peers ps)(pid := None)\<rparr>, None)))"

definition peer :: "string \<Rightarrow> peerSet \<Rightarrow> ongPeer option" where
  "peer pid ps = peers ps pid"

text \<open>
  Go leaves the order in which \<open>range\<close> visits a map unspecified. The loops over
  \<open>ps.peers\<close> therefore take the order of the keys as an argument \<open>ks\<close>; a legal order
  visits every key of the map exactly once.
\<close>

definition iteration_order :: "'k list \<Rightarrow> ('k \<rightharpoonup> 'v) \<Rightarrow> bool" where
  "iteration_order ks m = (distinct ks \<and> set ks = dom m)"

definition range_peers :: "string list \<Rightarrow> peerSet \<Rightarrow> ongPeer list" where
  "range_peers ks ps = List.map_filter (peers ps) ks"

fun peersWithoutBlock_loop :: "hash \<Rightarrow> ongPeer list \<Rightarrow> ongPeer list \<Rightarrow> ongPeer list" where
  "peersWithoutBlock_loop h [] list = list"
| "peersWithoutBlock_loop h (p # rest) list =
     peersWithoutBlock_loop h rest (if \<not> KnownBlock (Peer p) h then list @ [p] else list)"

definition peersWithoutBlock :: "string list \<Rightarrow> hash \<Rightarrow> peerSet \<Rightarrow> ongPeer list" where
  "peersWithoutBlock ks h ps = peersWithoutBlock_loop h (range_peers ks ps) []"

fun peersWithoutTransaction_loop :: "hash \<Rightarrow> ongPeer list \<Rightarrow> ongPeer list \<Rightarrow> ongPeer list" where
  "peersWithoutTransaction_loop h [] list = list"
| "peersWithoutTransaction_loop h (p # rest) list =
     peersWithoutTransaction_loop h rest
       (if \<not> KnownTransaction (Peer p) h then list @ [p] else list)"

definition peersWithoutTransaction :: "string list \<Rightarrow> hash \<Rightarrow> peerSet \<Rightarrow> ongPeer list" where
  "peersWithoutTransaction ks h ps = peersWithoutTransaction_loop h (range_peers ks ps) []"

definition len :: "peerSet \<Rightarrow> int" where
  "len ps = int (card (dom (peers ps)))"

definition snapLen :: "peerSet \<Rightarrow> int" where
  "snapLen ps = snapPeers ps"

text \<open>
  The loop of \<open>peerWithHighestTD\<close> keeps \<open>bestPeer\<close> and \<open>bestTd\<close>, which are nil together
  and set together: one optional pair.
\<close>

fun peerWithHighestTD_loop ::
    "ongPeer list \<Rightarrow> (ong_Peer \<times> int) option \<Rightarrow> (ong_Peer \<times> int) option" where
  "peerWithHighestTD_loop [] best = best"
| "peerWithHighestTD_loop (p # rest) best =
     (let td = snd (Head (Peer p)) in
      peerWithHighestTD_loop rest
        (case best of
           None \<Rightarrow> Some (Peer p, td)
         | Some (bestPeer, bestTd) \<Rightarrow> if td > bestTd then Some (Peer p, td) else best))"

definition peerWithHighestTD :: "string list \<Rightarrow> peerSet \<Rightarrow> ong_Peer option" where
  "peerWithHighestTD ks ps = map_option fst (peerWithHighestTD_loop (range_peers ks ps) None)"

text \<open>\<open>close\<close> asks every registered peer to disconnect, which is an effect on the
  connections and not on the set, and sets the flag. It touches no map.\<close>

definition close :: "peerSet \<Rightarrow> peerSet" where
  "close ps = ps\<lparr>closed := True\<rparr>"

section \<open>Histories of the peer set\<close>

text \<open>
  The operations that change the set, as data, so that states reached by any history
  of calls can be talked about. \<open>exec\<close> keeps the state an operation leaves behind.
\<close>

datatype op =
    RegisterSnapExtension snap_Peer
  | WaitSnapExtension ong_Peer
  | RegisterPeer ong_Peer "snap_Peer option"
  | UnregisterPeer string
  | Close

fun exec :: "op \<Rightarrow> peerSet \<Rightarrow> peerSet" where
  "exec (RegisterSnapExtension sp) ps = fst (registerSnapExtension sp ps)"
| "exec (WaitSnapExtension p) ps = fst (waitSnapExtension p ps)"
| "exec (RegisterPeer p ext) ps = fst (registerPeer p ext ps)"
| "exec (UnregisterPeer pid) ps = fst (unregisterPeer pid ps)"
| "exec Close ps = close ps"

fun run :: "op list \<Rightarrow> peerSet \<Rightarrow> peerSet" where
  "run [] ps = ps"
| "run (x # xs) ps = run xs (exec x ps)"

text \<open>
  The bookkeeping invariant of \<open>snapPeers\<close>: it counts the registered peers that carry a
  satellite connection. A Go map holds finitely many keys, which is part of the
  invariant because a HOL map need not.
\<close>

definition snapKeys :: "peerSet \<Rightarrow> string set" where
  "snapKeys ps = {k. \<exists>p. peers ps k = Some p \<and> snapExt p \<noteq> None}"

definition peerSet_inv :: "peerSet \<Rightarrow> bool" where
  "peerSet_inv ps = (finite (dom (peers ps)) \<and> snapPeers ps = int (card (snapKeys ps)))"

section \<open>Reorg preservation policy\<close>

text \<open>
  The consensus engines are declared outside the files modelled here. \<open>shouldPreserve\<close>
  asks only whether the engine is the clique engine, and \<open>isLocalBlock\<close> only for the
  author the engine recovers from a header, which can fail; so an engine is its kind
  with its \<open>Author\<close> function (\<open>None\<close> when it returns an error). The type of headers
  is left open.
\<close>

datatype 'h engine =
    is_Clique: Clique "'h \<Rightarrow> address option"
  | Ongash "'h \<Rightarrow> address option"

fun Author :: "'h engine \<Rightarrow> 'h \<Rightarrow> address option" where
  "Author (Clique f) header = f header"
| "Author (Ongash f) header = f header"

record 'h Block =
  Header :: 'h

record 'h Orange =
  engine :: "'h engine"
  ongerbase :: address
  Locals :: "address list"  \<comment> \<open>\<open>config.TxPool.Locals\<close>\<close>

fun isLocalBlock_loop :: "address list \<Rightarrow> address \<Rightarrow> bool" where
  "isLocalBlock_loop [] author = False"
| "isLocalBlock_loop (account # rest) author =
     (if account = author then True else isLocalBlock_loop rest author)"

definition isLocalBlock :: "'h Orange \<Rightarrow> 'h Block \<Rightarrow> bool" where
  "isLocalBlock s block =
     (case Author (engine s) (Header block) of
        None \<Rightarrow> False
      | Some author \<Rightarrow>
          if author = ongerbase s then True else isLocalBlock_loop (Locals s) author)"

definition shouldPreserve :: "'h Orange \<Rightarrow> 'h Block \<Rightarrow> bool" where
  "shouldPreserve s block =
     (case engine s of Clique _ \<Rightarrow> False | Ongash _ \<Rightarrow> isLocalBlock s block)"

section \<open>Sync mode of the handler\<close>

text \<open>
  Modelled from the spec: the handler that owns the \<open>fastSync\<close> flag (its constructor,
  its sync cycle and its block import) is not among the source files; only the test
  \<open>testFastSyncDisabling\<close> that reads the flag is. The specification says that sync
  started on an empty local chain has fast sync enabled, that the successful import
  of a full block disables it, and that nothing enables it again: not the start of a
  sync against another peer, and not the local chain being found empty later. The
  test adds that a handler created on a chain that has blocks starts with fast sync
  disabled.
\<close>

record handler =
  fastSync :: bool
  chainBlocks :: nat  \<comment> \<open>full blocks of the local chain above genesis\<close>

definition newHandler :: "nat \<Rightarrow> handler" where
  "newHandler blocks = \<lparr>fastSync = (blocks = 0), chainBlocks = blocks\<rparr>"

datatype event =
    StartSync string  \<comment> \<open>a sync cycle is started against the peer named\<close>
  | ImportBlock bool  \<comment> \<open>a full block arrives from the network; the flag says whether the import succeeded\<close>
  | ChainEmptied  \<comment> \<open>the local chain is rewound to genesis\<close>

fun handle :: "event \<Rightarrow> handler \<Rightarrow> handler" where
  "handle (StartSync p) h = h"
| "handle (ImportBlock ok) h =
     (if ok then h\<lparr>fastSync := False, chainBlocks := chainBlocks h + 1\<rparr> else h)"
| "handle ChainEmptied h = h\<lparr>chainBlocks := 0\<rparr>"

fun handle_all :: "event list \<Rightarrow> handler \<Rightarrow> handler" where
  "handle_all [] h = h"
| "handle_all (e # es) h = handle_all es (handle e h)"

section \<open>Example inputs\<close>

definition peerA :: ong_Peer where
  "peerA = \<lparr>ong_ID = ''a'', ong_RunningSnap = True, Head = (1, 10),
     knownBlocks = {1}, knownTxs = {2}\<rparr>"

definition peerB :: ong_Peer where
  "peerB = \<lparr>ong_ID = ''b'', ong_RunningSnap = False, Head = (3, 10),
     knownBlocks = {3}, knownTxs = {}\<rparr>"

definition peerC :: ong_Peer where
  "peerC = \<lparr>ong_ID = ''c'', ong_RunningSnap = False, Head = (4, 7),
     knownBlocks = {}, knownTxs = {2}\<rparr>"

definition snapA :: snap_Peer where
  "snapA = \<lparr>snap_ID = ''a'', snap_RunningOng = True\<rparr>"

definition setA :: peerSet where
  "setA = fst (registerPeer peerA (Some snapA) newPeerSet)"

definition setABC :: peerSet where
  "setABC = run [RegisterPeer peerA (Some snapA), RegisterPeer peerB None,
     RegisterPeer peerC None] newPeerSet"

section \<open>Facts about the loops over the peer table\<close>

lemma peersWithoutBlock_loop_filter:
  "peersWithoutBlock_loop h vs acc = acc @ filter (\<lambda>p. \<not> KnownBlock (Peer p) h) vs"
  by (induction vs arbitrary: acc) simp_all

lemma peersWithoutTransaction_loop_filter:
  "peersWithoutTransaction_loop h vs acc =
     acc @ filter (\<lambda>p. \<not> KnownTransaction (Peer p) h) vs"
  by (induction vs arbitrary: acc) simp_all

lemma set_range_peers:
  "iteration_order ks (peers ps) \<Longrightarrow> set (range_peers ks ps) = ran (peers ps)"
  by (force simp add: range_peers_def List.map_filter_def ran_def iteration_order_def dom_def)

lemma range_peers_map:
  "set ks \<subseteq> dom (peers ps) \<Longrightarrow> range_peers ks ps = map (\<lambda>k. the (peers ps k)) ks"
  by (induction ks) (auto simp add: range_peers_def List.map_filter_def)

lemma set_peersWithoutBlock:
  "iteration_order ks (peers ps) \<Longrightarrow>
   set (peersWithoutBlock ks h ps) = {p \<in> ran (peers ps). \<not> KnownBlock (Peer p) h}"
  by (auto simp add: peersWithoutBlock_def peersWithoutBlock_loop_filter set_range_peers)

lemma set_peersWithoutTransaction:
  "iteration_order ks (peers ps) \<Longrightarrow>
   set (peersWithoutTransaction ks h ps) =
     {p \<in> ran (peers ps). \<not> KnownTransaction (Peer p) h}"
  by (auto simp add: peersWithoutTransaction_def peersWithoutTransaction_loop_filter
      set_range_peers)

text \<open>
  The loop of \<open>peerWithHighestTD\<close>, started with a candidate: the result is at least
  as heavy as the candidate and as everything visited, and it is either the candidate
  itself or the first visited peer that reaches the final weight.
\<close>

lemma peerWithHighestTD_loop_Some:
  "peerWithHighestTD_loop vs (Some (b, t)) = Some (b', t') \<Longrightarrow>
   t \<le> t' \<and> (\<forall>v \<in> set vs. snd (Head (Peer v)) \<le> t') \<and>
   ((b', t') = (b, t) \<or>
    (\<exists>i < length vs. b' = Peer (vs ! i) \<and> t' = snd (Head (Peer (vs ! i))) \<and> t < t' \<and>
       (\<forall>j < i. snd (Head (Peer (vs ! j))) < t')))"
proof (induction vs arbitrary: b t)
  case Nil
  then show ?case by simp
next
  case (Cons v vs)
  let ?w = "snd (Head (Peer v))"
  let ?first = "\<lambda>us lo. \<exists>i < length us. b' = Peer (us ! i) \<and> t' = snd (Head (Peer (us ! i))) \<and>
    lo < t' \<and> (\<forall>j < i. snd (Head (Peer (us ! j))) < t')"
  have shift: "?first (v # vs) t" if i: "?first vs lo" and lo: "t \<le> lo" and w: "?w < t'" for lo
  proof -
    from i obtain i where i: "i < length vs" "b' = Peer (vs ! i)"
      "t' = snd (Head (Peer (vs ! i)))" "lo < t'" "\<forall>j < i. snd (Head (Peer (vs ! j))) < t'"
      by blast
    have "\<forall>j < Suc i. snd (Head (Peer ((v # vs) ! j))) < t'"
      using i(5) w by (auto simp add: nth_Cons split: nat.splits)
    with i lo have "Suc i < length (v # vs) \<and> b' = Peer ((v # vs) ! Suc i) \<and>
        t' = snd (Head (Peer ((v # vs) ! Suc i))) \<and> t < t' \<and>
        (\<forall>j < Suc i. snd (Head (Peer ((v # vs) ! j))) < t')"
      by simp
    then show ?thesis by blast
  qed
  show ?case
  proof (cases "t < ?w")
    case True
    with Cons.prems have "peerWithHighestTD_loop vs (Some (Peer v, ?w)) = Some (b', t')"
      by (simp add: Let_def)
    from Cons.IH [OF this] have le: "?w \<le> t'"
      and all: "\<forall>x \<in> set vs. snd (Head (Peer x)) \<le> t'"
      and alt: "(b', t') = (Peer v, ?w) \<or> ?first vs ?w"
      by simp_all
    from alt have "?first (v # vs) t"
    proof
      assume "(b', t') = (Peer v, ?w)"
      then have "0 < length (v # vs) \<and> b' = Peer ((v # vs) ! 0) \<and>
          t' = snd (Head (Peer ((v # vs) ! 0))) \<and> t < t' \<and>
          (\<forall>j < 0. snd (Head (Peer ((v # vs) ! j))) < t')"
        using True by simp
      then show ?thesis by blast
    next
      assume f: "?first vs ?w"
      then have "?w < t'" by blast
      with f True show ?thesis by (intro shift [of ?w]) simp_all
    qed
    with le all True show ?thesis by auto
  next
    case False
    with Cons.prems have "peerWithHighestTD_loop vs (Some (b, t)) = Some (b', t')"
      by (simp add: Let_def)
    from Cons.IH [OF this] have le: "t \<le> t'"
      and all: "\<forall>x \<in> set vs. snd (Head (Peer x)) \<le> t'"
      and alt: "(b', t') = (b, t) \<or> ?first vs t"
      by simp_all
    from alt show ?thesis
    proof
      assume "(b', t') = (b, t)"
      with le all False show ?thesis by auto
    next
      assume f: "?first vs t"
      then have "t < t'" by blast
      with False have "?w < t'" by simp
      with f have "?first (v # vs) t" by (intro shift [of t]) simp_all
      with le all False show ?thesis by auto
    qed
  qed
qed

lemma peerWithHighestTD_loop_Some_defined: "peerWithHighestTD_loop vs (Some b) \<noteq> None"
  by (induction vs arbitrary: b) (auto simp add: Let_def split: prod.splits)

text \<open>Started with no candidate on a non-empty list, the loop returns the first of the
  heaviest peers.\<close>

lemma peerWithHighestTD_loop_None:
  assumes "vs \<noteq> []"
  shows "\<exists>i < length vs.
    peerWithHighestTD_loop vs None = Some (Peer (vs ! i), snd (Head (Peer (vs ! i)))) \<and>
    (\<forall>v \<in> set vs. snd (Head (Peer v)) \<le> snd (Head (Peer (vs ! i)))) \<and>
    (\<forall>j < i. snd (Head (Peer (vs ! j))) < snd (Head (Peer (vs ! i))))"
proof -
  from assms obtain v us where vs: "vs = v # us" by (cases vs) auto
  let ?w = "snd (Head (Peer v))"
  have start: "peerWithHighestTD_loop vs None = peerWithHighestTD_loop us (Some (Peer v, ?w))"
    by (simp add: vs Let_def)
  obtain b' t' where res: "peerWithHighestTD_loop us (Some (Peer v, ?w)) = Some (b', t')"
    using peerWithHighestTD_loop_Some_defined [of us "(Peer v, ?w)"] by (cases "peerWithHighestTD_loop us (Some (Peer v, ?w))") auto
  from peerWithHighestTD_loop_Some [OF res] have le: "?w \<le> t'"
    and all: "\<forall>x \<in> set us. snd (Head (Peer x)) \<le> t'"
    and alt: "(b', t') = (Peer v, ?w) \<or>
      (\<exists>i < length us. b' = Peer (us ! i) \<and> t' = snd (Head (Peer (us ! i))) \<and> ?w < t' \<and>
        (\<forall>j < i. snd (Head (Peer (us ! j))) < t'))"
    by simp_all
  from alt show ?thesis
  proof
    assume eq: "(b', t') = (Peer v, ?w)"
    have "0 < length vs \<and>
      peerWithHighestTD_loop vs None = Some (Peer (vs ! 0), snd (Head (Peer (vs ! 0)))) \<and>
      (\<forall>x \<in> set vs. snd (Head (Peer x)) \<le> snd (Head (Peer (vs ! 0)))) \<and>
      (\<forall>j < 0. snd (Head (Peer (vs ! j))) < snd (Head (Peer (vs ! 0))))"
      using eq start res all by (simp add: vs)
    then show ?thesis by blast
  next
    assume "\<exists>i < length us. b' = Peer (us ! i) \<and> t' = snd (Head (Peer (us ! i))) \<and> ?w < t' \<and>
        (\<forall>j < i. snd (Head (Peer (us ! j))) < t')"
    then obtain i where i: "i < length us" "b' = Peer (us ! i)"
      "t' = snd (Head (Peer (us ! i)))" "?w < t'" "\<forall>j < i. snd (Head (Peer (us ! j))) < t'"
      by blast
    have before: "\<forall>j < Suc i. snd (Head (Peer (vs ! j))) < snd (Head (Peer (vs ! Suc i)))"
      using i(3,4,5) by (auto simp add: vs nth_Cons split: nat.splits)
    have "Suc i < length vs \<and>
      peerWithHighestTD_loop vs None
        = Some (Peer (vs ! Suc i), snd (Head (Peer (vs ! Suc i)))) \<and>
      (\<forall>x \<in> set vs. snd (Head (Peer x)) \<le> snd (Head (Peer (vs ! Suc i)))) \<and>
      (\<forall>j < Suc i. snd (Head (Peer (vs ! j))) < snd (Head (Peer (vs ! Suc i))))"
      using i(1,2,3) start res all le before by (simp add: vs)
    then show ?thesis by blast
  qed
qed

section \<open>Facts about the bookkeeping invariant\<close>

lemma snapKeys_subset: "snapKeys ps \<subseteq> dom (peers ps)"
  by (auto simp add: snapKeys_def)

lemma peerSet_inv_new: "peerSet_inv newPeerSet"
  by (simp add: peerSet_inv_def newPeerSet_def snapKeys_def)

lemma peerSet_inv_registerSnapExtension:
  "peerSet_inv ps \<Longrightarrow> peerSet_inv (fst (registerSnapExtension sp ps))"
  by (simp add: registerSnapExtension_def peerSet_inv_def snapKeys_def Let_def
      split: option.splits)

lemma peerSet_inv_waitSnapExtension:
  "peerSet_inv ps \<Longrightarrow> peerSet_inv (fst (waitSnapExtension p ps))"
  by (simp add: waitSnapExtension_def peerSet_inv_def snapKeys_def Let_def
      split: option.splits)

lemma peerSet_inv_close: "peerSet_inv ps \<Longrightarrow> peerSet_inv (close ps)"
  by (simp add: close_def peerSet_inv_def snapKeys_def)

lemma peerSet_inv_registerPeer:
  assumes "peerSet_inv ps"
  shows "peerSet_inv (fst (registerPeer p ext ps))"
proof (cases "closed ps \<or> peers ps (ong_ID p) \<noteq> None")
  case True
  with assms show ?thesis by (auto simp add: registerPeer_def Let_def)
next
  case False
  then have fresh: "peers ps (ong_ID p) = None" and op: "\<not> closed ps" by simp_all
  from assms have fin: "finite (dom (peers ps))"
    and cnt: "snapPeers ps = int (card (snapKeys ps))"
    by (simp_all add: peerSet_inv_def)
  have finK: "finite (snapKeys ps)"
    using fin snapKeys_subset by (rule rev_finite_subset)
  have notin: "ong_ID p \<notin> snapKeys ps"
    using fresh by (simp add: snapKeys_def)
  show ?thesis
  proof (cases ext)
    case None
    have "snapKeys (fst (registerPeer p None ps)) = snapKeys ps"
      using fresh op by (auto simp add: registerPeer_def Let_def snapKeys_def)
    with fin cnt fresh op None show ?thesis
      by (simp add: peerSet_inv_def) (simp add: registerPeer_def Let_def)
  next
    case (Some e)
    have "snapKeys (fst (registerPeer p (Some e) ps)) = insert (ong_ID p) (snapKeys ps)"
      using fresh op by (auto simp add: registerPeer_def Let_def snapKeys_def)
    with fin cnt fresh op Some finK notin show ?thesis
      by (simp add: peerSet_inv_def) (simp add: registerPeer_def Let_def)
  qed
qed

lemma peerSet_inv_unregisterPeer:
  assumes "peerSet_inv ps"
  shows "peerSet_inv (fst (unregisterPeer pid ps))"
proof (cases "peers ps pid")
  case None
  with assms show ?thesis by (simp add: unregisterPeer_def)
next
  case (Some q)
  from assms have fin: "finite (dom (peers ps))"
    and cnt: "snapPeers ps = int (card (snapKeys ps))"
    by (simp_all add: peerSet_inv_def)
  have finK: "finite (snapKeys ps)"
    using fin snapKeys_subset by (rule rev_finite_subset)
  show ?thesis
  proof (cases "snapExt q")
    case None
    have "snapKeys (fst (unregisterPeer pid ps)) = snapKeys ps"
      using Some None by (auto simp add: unregisterPeer_def snapKeys_def)
    with fin cnt Some None show ?thesis
      by (simp add: peerSet_inv_def) (simp add: unregisterPeer_def)
  next
    case ext: (Some e)
    have mem: "pid \<in> snapKeys ps"
      using Some ext by (simp add: snapKeys_def)
    have "snapKeys (fst (unregisterPeer pid ps)) = snapKeys ps - {pid}"
      using Some ext by (auto simp add: unregisterPeer_def snapKeys_def)
    moreover have "0 < card (snapKeys ps)"
      using finK mem by (auto simp add: card_gt_0_iff)
    ultimately show ?thesis
      using fin cnt Some ext finK mem
      by (simp add: peerSet_inv_def) (simp add: unregisterPeer_def)
  qed
qed

lemma peerSet_inv_exec: "peerSet_inv ps \<Longrightarrow> peerSet_inv (exec x ps)"
  by (cases x)
    (simp_all add: peerSet_inv_registerSnapExtension peerSet_inv_waitSnapExtension
      peerSet_inv_registerPeer peerSet_inv_unregisterPeer peerSet_inv_close)

lemma peerSet_inv_run: "peerSet_inv ps \<Longrightarrow> peerSet_inv (run xs ps)"
  by (induction xs arbitrary: ps) (simp_all add: peerSet_inv_exec)

lemma peerSet_inv_snapLen_le: "peerSet_inv ps \<Longrightarrow> snapLen ps \<le> len ps"
  by (simp add: peerSet_inv_def snapLen_def len_def card_mono snapKeys_subset)

section \<open>Facts about the example inputs\<close>

lemma peers_setABC:
  "peers setABC = [''a'' \<mapsto> \<lparr>Peer = peerA, snapExt = Some \<lparr>snapPeer_Peer = snapA\<rparr>\<rparr>,
     ''b'' \<mapsto> \<lparr>Peer = peerB, snapExt = None\<rparr>, ''c'' \<mapsto> \<lparr>Peer = peerC, snapExt = None\<rparr>]"
  by (simp add: setABC_def registerPeer_def Let_def newPeerSet_def peerA_def peerB_def
      peerC_def)

lemma iteration_order_setABC:
  "iteration_order [''c'', ''a'', ''b''] (peers setABC)"
  "iteration_order [''b'', ''c'', ''a''] (peers setABC)"
  by (auto simp add: peers_setABC iteration_order_def)

lemma range_setABC:
  "range_peers [''c'', ''a'', ''b''] setABC =
     [\<lparr>Peer = peerC, snapExt = None\<rparr>, \<lparr>Peer = peerA, snapExt = Some \<lparr>snapPeer_Peer = snapA\<rparr>\<rparr>,
      \<lparr>Peer = peerB, snapExt = None\<rparr>]"
  "range_peers [''b'', ''c'', ''a''] setABC =
     [\<lparr>Peer = peerB, snapExt = None\<rparr>, \<lparr>Peer = peerC, snapExt = None\<rparr>,
      \<lparr>Peer = peerA, snapExt = Some \<lparr>snapPeer_Peer = snapA\<rparr>\<rparr>]"
  by (simp_all add: peers_setABC range_peers_def List.map_filter_def)

lemma heads: "snd (Head peerA) = 10" "snd (Head peerB) = 10" "snd (Head peerC) = 7"
  by (simp_all add: peerA_def peerB_def peerC_def)

lemma known_examples:
  "KnownBlock peerA 1" "\<not> KnownBlock peerB 1" "\<not> KnownBlock peerC 1"
  "KnownTransaction peerA 2" "\<not> KnownTransaction peerB 2" "KnownTransaction peerC 2"
  by (simp_all add: KnownBlock_def KnownTransaction_def peerA_def peerB_def peerC_def)

lemma setA_fields:
  "peers setA = [''a'' \<mapsto> \<lparr>Peer = peerA, snapExt = Some \<lparr>snapPeer_Peer = snapA\<rparr>\<rparr>]"
  "snapPeers setA = 1"
  by (simp_all add: setA_def registerPeer_def Let_def newPeerSet_def peerA_def)

section \<open>Facts about the sync mode and the preservation policy\<close>

lemma isLocalBlock_loop_set: "isLocalBlock_loop accounts author \<longleftrightarrow> author \<in> set accounts"
  by (induction accounts) auto

lemma fastSync_stays_off: "\<not> fastSync h \<Longrightarrow> \<not> fastSync (handle_all es h)"
proof (induction es arbitrary: h)
  case Nil
  then show ?case by simp
next
  case (Cons e es)
  from Cons.prems have "\<not> fastSync (handle e h)"
    by (cases e) simp_all
  then show ?case by (simp add: Cons.IH)
qed

section \<open>The claims\<close>

text \<open>
  C1. Fast sync is one-way over the life of the process. A handler created on an empty
  local chain has fast sync enabled, and starting a sync against a peer leaves it
  enabled. After one full block has been imported successfully, fast sync is disabled
  and stays disabled under every later history of events: sync cycles started against
  any peer, further imports whether they succeed or fail, and the chain being emptied.
\<close>

theorem fastSync_one_way:
  "fastSync (newHandler 0) \<and>
   fastSync (handle (StartSync p) (newHandler 0)) \<and>
   \<not> fastSync (handle (ImportBlock True) h) \<and>
   \<not> fastSync (handle_all es (handle (ImportBlock True) h)) \<and>
   \<not> fastSync (handle (StartSync q) (handle ChainEmptied (handle (ImportBlock True) h)))"
proof -
  have off: "\<not> fastSync (handle (ImportBlock True) h)" by simp
  from off have "\<not> fastSync (handle_all es (handle (ImportBlock True) h))"
    by (rule fastSync_stays_off)
  then show ?thesis by (simp add: newHandler_def)
qed

text \<open>
  C2, as stated, fails: a caller of \<open>waitSnapExtension\<close> that is parked when \<open>close\<close>
  runs is still parked afterwards, because \<open>close\<close> does not touch \<open>snapWait\<close>.
\<close>

theorem waitSnapExtension_close_counterexample:
  "snd (waitSnapExtension peerA newPeerSet) = Blocked \<and>
   closed (close (fst (waitSnapExtension peerA newPeerSet))) \<and>
   snapWait (close (fst (waitSnapExtension peerA newPeerSet))) (ong_ID peerA) \<noteq> None"
  by (simp add: waitSnapExtension_def close_def newPeerSet_def peerA_def)

text \<open>
  C2, amended. A peer that advertises \<open>snap\<close>, is neither registered nor already
  waiting, and whose extension is not pending, parks its caller in \<open>snapWait\<close>. A
  parked caller whose identifier is neither registered nor pending is released by
  \<open>registerSnapExtension\<close> of a snap peer with that identifier that runs \<open>ong\<close>: the
  call returns nil, sends the peer to the parked caller, which returns it without
  error, and removes the caller from \<open>snapWait\<close>. \<open>close\<close> releases nobody: it leaves
  \<open>snapWait\<close> as it is.
\<close>

theorem waitSnapExtension_blocks_until_delivery:
  "(ong_RunningSnap p \<and> peers ps (ong_ID p) = None \<and> snapWait ps (ong_ID p) = None \<and>
      snapPend ps (ong_ID p) = None \<longrightarrow>
        waitSnapExtension p ps = (ps\<lparr>snapWait := (snapWait ps)(ong_ID p \<mapsto> ())\<rparr>, Blocked)) \<and>
   (snapWait ps (snap_ID sp) \<noteq> None \<and> peers ps (snap_ID sp) = None \<and>
      snapPend ps (snap_ID sp) = None \<and> snap_RunningOng sp \<longrightarrow>
        registerSnapExtension sp ps =
          (ps\<lparr>snapWait := (snapWait ps)(snap_ID sp := None)\<rparr>, Some (snap_ID sp, sp), None) \<and>
        received sp = Returned (Some sp) None) \<and>
   snapWait (close ps) = snapWait ps"
  by (auto simp add: waitSnapExtension_def registerSnapExtension_def close_def received_def
      Let_def)

theorem waitSnapExtension_blocks_until_delivery_witness:
  "waitSnapExtension peerA newPeerSet =
     (newPeerSet\<lparr>snapWait := [''a'' \<mapsto> ()]\<rparr>, Blocked) \<and>
   registerSnapExtension snapA (close (fst (waitSnapExtension peerA newPeerSet))) =
     (close newPeerSet, Some (''a'', snapA), None)"
  using waitSnapExtension_blocks_until_delivery [of peerA newPeerSet snapA]
    waitSnapExtension_blocks_until_delivery
      [of peerA "close (fst (waitSnapExtension peerA newPeerSet))" snapA]
  by (simp add: waitSnapExtension_def close_def newPeerSet_def peerA_def snapA_def)

text \<open>
  C3, as stated, fails where its two failure cases overlap: on a closed set that still
  holds the peer, \<open>registerPeer\<close> reports that the set is closed, not that the peer is
  already registered.
\<close>

theorem registerPeer_counterexample:
  "closed (close setA) \<and> peers (close setA) (ong_ID peerA) \<noteq> None \<and>
   snd (registerPeer peerA None (close setA)) \<noteq> Some errPeerAlreadyRegistered"
  by (simp add: setA_def registerPeer_def close_def newPeerSet_def peerA_def)

text \<open>
  C3, amended. \<open>registerPeer\<close> fails with \<open>errPeerSetClosed\<close> whenever the set is
  closed; on a set that is not closed it fails with \<open>errPeerAlreadyRegistered\<close>
  whenever the identifier is registered; both failures leave the set unchanged.
  Otherwise it returns nil, the peer is in the table under its identifier, and in any
  iteration order of the new table the selection queries see it: it is listed by
  \<open>peersWithoutBlock\<close> and \<open>peersWithoutTransaction\<close> for exactly the hashes it does
  not know, and \<open>peerWithHighestTD\<close> finds a peer.
\<close>

theorem registerPeer_errors_and_visibility:
  "(closed ps \<longrightarrow> registerPeer p ext ps = (ps, Some errPeerSetClosed)) \<and>
   (\<not> closed ps \<and> peers ps (ong_ID p) \<noteq> None \<longrightarrow>
      registerPeer p ext ps = (ps, Some errPeerAlreadyRegistered)) \<and>
   (\<not> closed ps \<and> peers ps (ong_ID p) = None \<longrightarrow>
      snd (registerPeer p ext ps) = None \<and>
      peer (ong_ID p) (fst (registerPeer p ext ps))
        = Some \<lparr>Peer = p, snapExt = map_option (\<lambda>e. \<lparr>snapPeer_Peer = e\<rparr>) ext\<rparr> \<and>
      (\<forall>ks h. iteration_order ks (peers (fst (registerPeer p ext ps))) \<longrightarrow>
         (\<lparr>Peer = p, snapExt = map_option (\<lambda>e. \<lparr>snapPeer_Peer = e\<rparr>) ext\<rparr>
            \<in> set (peersWithoutBlock ks h (fst (registerPeer p ext ps)))
          \<longleftrightarrow> \<not> KnownBlock p h) \<and>
         (\<lparr>Peer = p, snapExt = map_option (\<lambda>e. \<lparr>snapPeer_Peer = e\<rparr>) ext\<rparr>
            \<in> set (peersWithoutTransaction ks h (fst (registerPeer p ext ps)))
          \<longleftrightarrow> \<not> KnownTransaction p h) \<and>
         peerWithHighestTD ks (fst (registerPeer p ext ps)) \<noteq> None))"
proof (intro conjI impI)
  show "registerPeer p ext ps = (ps, Some errPeerSetClosed)" if "closed ps"
    using that by (simp add: registerPeer_def)
  show "registerPeer p ext ps = (ps, Some errPeerAlreadyRegistered)"
    if "\<not> closed ps \<and> peers ps (ong_ID p) \<noteq> None"
    using that by (auto simp add: registerPeer_def Let_def)
next
  let ?q = "\<lparr>Peer = p, snapExt = map_option (\<lambda>e. \<lparr>snapPeer_Peer = e\<rparr>) ext\<rparr>"
  let ?ps = "fst (registerPeer p ext ps)"
  assume ok: "\<not> closed ps \<and> peers ps (ong_ID p) = None"
  then have tab: "peers ?ps = (peers ps)(ong_ID p \<mapsto> ?q)"
    by (cases ext) (simp_all add: registerPeer_def Let_def)
  show "snd (registerPeer p ext ps) = None"
    using ok by (cases ext) (simp_all add: registerPeer_def Let_def)
  show "peer (ong_ID p) ?ps = Some ?q"
    by (simp add: peer_def tab)
  have inran: "?q \<in> ran (peers ?ps)"
    by (auto simp add: tab ran_def)
  show "\<forall>ks h. iteration_order ks (peers ?ps) \<longrightarrow>
         (?q \<in> set (peersWithoutBlock ks h ?ps) \<longleftrightarrow> \<not> KnownBlock p h) \<and>
         (?q \<in> set (peersWithoutTransaction ks h ?ps) \<longleftrightarrow> \<not> KnownTransaction p h) \<and>
         peerWithHighestTD ks ?ps \<noteq> None"
  proof (intro allI impI conjI)
    fix ks h
    assume ord: "iteration_order ks (peers ?ps)"
    show "?q \<in> set (peersWithoutBlock ks h ?ps) \<longleftrightarrow> \<not> KnownBlock p h"
      using inran by (simp add: set_peersWithoutBlock [OF ord])
    show "?q \<in> set (peersWithoutTransaction ks h ?ps) \<longleftrightarrow> \<not> KnownTransaction p h"
      using inran by (simp add: set_peersWithoutTransaction [OF ord])
    have "range_peers ks ?ps \<noteq> []"
      using inran set_range_peers [OF ord] by auto
    from peerWithHighestTD_loop_None [OF this]
    show "peerWithHighestTD ks ?ps \<noteq> None"
      by (auto simp add: peerWithHighestTD_def)
  qed
qed

theorem registerPeer_errors_and_visibility_witness:
  "\<not> closed newPeerSet \<and> peers newPeerSet (ong_ID peerA) = None \<and>
   closed (close newPeerSet) \<and>
   registerPeer peerA None (close newPeerSet) = (close newPeerSet, Some errPeerSetClosed) \<and>
   peers setA (ong_ID peerA) \<noteq> None \<and> \<not> closed setA \<and>
   registerPeer peerA None setA = (setA, Some errPeerAlreadyRegistered) \<and>
   snd (registerPeer peerA (Some snapA) newPeerSet) = None \<and>
   iteration_order [''a''] (peers setA) \<and>
   \<lparr>Peer = peerA, snapExt = Some \<lparr>snapPeer_Peer = snapA\<rparr>\<rparr> \<in> set (peersWithoutBlock [''a''] 5 setA)"
  using registerPeer_errors_and_visibility [of "close newPeerSet" peerA None]
    registerPeer_errors_and_visibility [of setA peerA None]
    registerPeer_errors_and_visibility [of newPeerSet peerA "Some snapA"]
  by (simp add: setA_def registerPeer_def close_def newPeerSet_def peerA_def snapA_def
      iteration_order_def KnownBlock_def)

text \<open>
  C4. \<open>unregisterPeer\<close> fails with \<open>errPeerNotRegistered\<close> exactly when the identifier
  is not registered, and then leaves the set unchanged. Otherwise it returns nil,
  removes the peer from the table (its satellite connection goes with it) and
  decrements \<open>snapPeers\<close> exactly when the removed peer carried one, changing nothing
  else. Removal is idempotent on the set: a second call with the same identifier
  leaves the set as the first call left it.
\<close>

theorem unregisterPeer_removes:
  "(snd (unregisterPeer pid ps) = Some errPeerNotRegistered \<longleftrightarrow> peers ps pid = None) \<and>
   (peers ps pid = None \<longrightarrow> fst (unregisterPeer pid ps) = ps) \<and>
   (\<forall>q. peers ps pid = Some q \<longrightarrow>
      unregisterPeer pid ps =
        (ps\<lparr>peers := (peers ps)(pid := None),
            snapPeers := (if snapExt q \<noteq> None then snapPeers ps - 1 else snapPeers ps)\<rparr>,
         None)) \<and>
   peers (fst (unregisterPeer pid ps)) pid = None \<and>
   fst (unregisterPeer pid (fst (unregisterPeer pid ps))) = fst (unregisterPeer pid ps)"
  by (cases "peers ps pid") (auto simp add: unregisterPeer_def)

theorem unregisterPeer_removes_witness:
  "peers setA ''a'' = Some \<lparr>Peer = peerA, snapExt = Some \<lparr>snapPeer_Peer = snapA\<rparr>\<rparr> \<and>
   snapPeers setA = 1 \<and>
   unregisterPeer ''a'' setA = (newPeerSet, None) \<and>
   peers newPeerSet ''a'' = None \<and>
   unregisterPeer ''a'' newPeerSet = (newPeerSet, Some errPeerNotRegistered)"
  using unregisterPeer_removes [of "''a''" setA] unregisterPeer_removes [of "''a''" newPeerSet]
  by (simp add: setA_def registerPeer_def unregisterPeer_def newPeerSet_def peerA_def)

text \<open>
  C5. In every legal iteration order of the peer table, \<open>peerWithHighestTD\<close> returns nil
  on an empty table, and otherwise a registered peer whose total difficulty is at
  least that of every registered peer; every peer visited before it is strictly
  lighter, so among equally heavy peers it is the first one visited.
\<close>

theorem peerWithHighestTD_first_best:
  assumes "iteration_order ks (peers ps)"
  shows "(dom (peers ps) = {} \<longrightarrow> peerWithHighestTD ks ps = None) \<and>
   (dom (peers ps) \<noteq> {} \<longrightarrow>
      (\<exists>i < length ks. \<exists>q. peers ps (ks ! i) = Some q \<and>
         peerWithHighestTD ks ps = Some (Peer q) \<and>
         (\<forall>r \<in> ran (peers ps). snd (Head (Peer r)) \<le> snd (Head (Peer q))) \<and>
         (\<forall>j < i. \<forall>r. peers ps (ks ! j) = Some r \<longrightarrow>
            snd (Head (Peer r)) < snd (Head (Peer q)))))"
proof (intro conjI impI)
  assume "dom (peers ps) = {}"
  with assms have "ks = []" by (simp add: iteration_order_def)
  then show "peerWithHighestTD ks ps = None"
    by (simp add: peerWithHighestTD_def range_peers_def List.map_filter_def)
next
  assume "dom (peers ps) \<noteq> {}"
  moreover from assms have eq: "set ks = dom (peers ps)"
    by (simp add: iteration_order_def)
  ultimately have "set ks \<noteq> {}" by simp
  then have ks: "ks \<noteq> []" by auto
  from eq have sub: "set ks \<subseteq> dom (peers ps)" by simp
  let ?vs = "range_peers ks ps"
  have vs: "?vs = map (\<lambda>k. the (peers ps k)) ks"
    using sub by (rule range_peers_map)
  with ks have "?vs \<noteq> []" by simp
  from peerWithHighestTD_loop_None [OF this] obtain i where i: "i < length ?vs"
    and res: "peerWithHighestTD_loop ?vs None
      = Some (Peer (?vs ! i), snd (Head (Peer (?vs ! i))))"
    and all: "\<forall>v \<in> set ?vs. snd (Head (Peer v)) \<le> snd (Head (Peer (?vs ! i)))"
    and first: "\<forall>j < i. snd (Head (Peer (?vs ! j))) < snd (Head (Peer (?vs ! i)))"
    by blast
  from i have len: "i < length ks" by (simp add: vs)
  let ?q = "?vs ! i"
  have q: "peers ps (ks ! i) = Some ?q"
  proof -
    from len sub have "ks ! i \<in> dom (peers ps)" by (auto simp add: subset_iff)
    with len show ?thesis by (auto simp add: vs)
  qed
  have best: "peerWithHighestTD ks ps = Some (Peer ?q)"
    by (simp add: peerWithHighestTD_def res)
  have heavy: "\<forall>r \<in> ran (peers ps). snd (Head (Peer r)) \<le> snd (Head (Peer ?q))"
    using all by (simp add: set_range_peers [OF assms])
  have before: "\<forall>j < i. \<forall>r. peers ps (ks ! j) = Some r \<longrightarrow>
      snd (Head (Peer r)) < snd (Head (Peer ?q))"
  proof (intro allI impI)
    fix j r
    assume j: "j < i" and r: "peers ps (ks ! j) = Some r"
    with len have "?vs ! j = r" by (simp add: vs)
    with first j show "snd (Head (Peer r)) < snd (Head (Peer ?q))" by auto
  qed
  from len q best heavy before
  show "\<exists>i < length ks. \<exists>q. peers ps (ks ! i) = Some q \<and>
         peerWithHighestTD ks ps = Some (Peer q) \<and>
         (\<forall>r \<in> ran (peers ps). snd (Head (Peer r)) \<le> snd (Head (Peer q))) \<and>
         (\<forall>j < i. \<forall>r. peers ps (ks ! j) = Some r \<longrightarrow>
            snd (Head (Peer r)) < snd (Head (Peer q)))"
    by blast
qed

theorem peerWithHighestTD_first_best_witness:
  "iteration_order [''c'', ''a'', ''b''] (peers setABC) \<and>
   dom (peers setABC) \<noteq> {} \<and>
   (\<exists>q::ongPeer. peerWithHighestTD [''c'', ''a'', ''b''] setABC = Some (Peer q) \<and>
      (\<forall>r \<in> ran (peers setABC). snd (Head (Peer r)) \<le> snd (Head (Peer q)))) \<and>
   peerWithHighestTD [''c'', ''a'', ''b''] setABC = Some peerA \<and>
   peerWithHighestTD [''b'', ''c'', ''a''] setABC = Some peerB"
proof -
  have ord: "iteration_order [''c'', ''a'', ''b''] (peers setABC)"
    by (rule iteration_order_setABC)
  have ne: "dom (peers setABC) \<noteq> {}"
    by (simp add: peers_setABC)
  from peerWithHighestTD_first_best [OF ord, THEN conjunct2, THEN mp, OF ne]
  obtain i and q :: ongPeer where "peerWithHighestTD [''c'', ''a'', ''b''] setABC = Some (Peer q)"
    and "\<forall>r \<in> ran (peers setABC). snd (Head (Peer r)) \<le> snd (Head (Peer q))"
    by blast
  then have best: "\<exists>q::ongPeer. peerWithHighestTD [''c'', ''a'', ''b''] setABC = Some (Peer q) \<and>
      (\<forall>r \<in> ran (peers setABC). snd (Head (Peer r)) \<le> snd (Head (Peer q)))"
    by blast
  have a: "peerWithHighestTD [''c'', ''a'', ''b''] setABC = Some peerA"
    by (simp add: peerWithHighestTD_def range_setABC heads)
  have b: "peerWithHighestTD [''b'', ''c'', ''a''] setABC = Some peerB"
    by (simp add: peerWithHighestTD_def range_setABC heads)
  from ord ne best a b show ?thesis by blast
qed

text \<open>
  C6. In every legal iteration order of the peer table, \<open>peersWithoutBlock\<close> lists
  exactly the registered peers that do not know the block hash, and
  \<open>peersWithoutTransaction\<close> exactly the registered peers that do not know the
  transaction hash; so nothing that is not registered is listed.
\<close>

theorem peersWithout_exact:
  assumes "iteration_order ks (peers ps)"
  shows "set (peersWithoutBlock ks h ps) = {p \<in> ran (peers ps). \<not> KnownBlock (Peer p) h} \<and>
   set (peersWithoutTransaction ks h ps)
     = {p \<in> ran (peers ps). \<not> KnownTransaction (Peer p) h} \<and>
   set (peersWithoutBlock ks h ps) \<subseteq> ran (peers ps) \<and>
   set (peersWithoutTransaction ks h ps) \<subseteq> ran (peers ps)"
  using assms by (auto simp add: set_peersWithoutBlock set_peersWithoutTransaction)

theorem peersWithout_exact_witness:
  "iteration_order [''c'', ''a'', ''b''] (peers setABC) \<and>
   peersWithoutBlock [''c'', ''a'', ''b''] 1 setABC
     = [\<lparr>Peer = peerC, snapExt = None\<rparr>, \<lparr>Peer = peerB, snapExt = None\<rparr>] \<and>
   peersWithoutTransaction [''c'', ''a'', ''b''] 2 setABC = [\<lparr>Peer = peerB, snapExt = None\<rparr>] \<and>
   {p \<in> ran (peers setABC). \<not> KnownBlock (Peer p) 1}
     = {\<lparr>Peer = peerC, snapExt = None\<rparr>, \<lparr>Peer = peerB, snapExt = None\<rparr>} \<and>
   {p \<in> ran (peers setABC). \<not> KnownTransaction (Peer p) 2} = {\<lparr>Peer = peerB, snapExt = None\<rparr>}"
proof -
  have ord: "iteration_order [''c'', ''a'', ''b''] (peers setABC)"
    by (rule iteration_order_setABC)
  have blk: "peersWithoutBlock [''c'', ''a'', ''b''] 1 setABC
      = [\<lparr>Peer = peerC, snapExt = None\<rparr>, \<lparr>Peer = peerB, snapExt = None\<rparr>]"
    by (simp add: peersWithoutBlock_def range_setABC known_examples)
  have txs: "peersWithoutTransaction [''c'', ''a'', ''b''] 2 setABC
      = [\<lparr>Peer = peerB, snapExt = None\<rparr>]"
    by (simp add: peersWithoutTransaction_def range_setABC known_examples)
  from peersWithout_exact [OF ord, of 1]
  have "{p \<in> ran (peers setABC). \<not> KnownBlock (Peer p) 1}
      = set (peersWithoutBlock [''c'', ''a'', ''b''] 1 setABC)"
    by simp
  then have b: "{p \<in> ran (peers setABC). \<not> KnownBlock (Peer p) 1}
      = {\<lparr>Peer = peerC, snapExt = None\<rparr>, \<lparr>Peer = peerB, snapExt = None\<rparr>}"
    by (simp add: blk)
  from peersWithout_exact [OF ord, of 2]
  have "{p \<in> ran (peers setABC). \<not> KnownTransaction (Peer p) 2}
      = set (peersWithoutTransaction [''c'', ''a'', ''b''] 2 setABC)"
    by simp
  then have t: "{p \<in> ran (peers setABC). \<not> KnownTransaction (Peer p) 2}
      = {\<lparr>Peer = peerB, snapExt = None\<rparr>}"
    by (simp add: txs)
  from ord blk txs b t show ?thesis by blast
qed

text \<open>
  C7, as stated, fails: the extension of a peer can be pending while its identifier is
  registered, and then \<open>waitSnapExtension\<close> returns an error and no extension.
\<close>

theorem waitSnapExtension_pending_counterexample:
  "ong_RunningSnap peerA \<and>
   snapPend (fst (registerPeer peerA None (fst (registerSnapExtension snapA newPeerSet))))
     (ong_ID peerA) = Some snapA \<and>
   snd (waitSnapExtension peerA
     (fst (registerPeer peerA None (fst (registerSnapExtension snapA newPeerSet)))))
     = Returned None (Some errPeerAlreadyRegistered)"
  by (simp add: waitSnapExtension_def registerPeer_def registerSnapExtension_def Let_def
      newPeerSet_def peerA_def snapA_def)

text \<open>
  C7, amended. For a peer that does not advertise \<open>snap\<close>, \<open>waitSnapExtension\<close> returns
  at once a nil extension and no error, and leaves the set unchanged. For a peer that
  advertises \<open>snap\<close>, is neither registered nor already waiting, and whose extension is
  pending, it returns that extension at once, without error and without blocking, and
  takes it out of the pending set.
\<close>

theorem waitSnapExtension_immediate:
  "(\<not> ong_RunningSnap p \<longrightarrow> waitSnapExtension p ps = (ps, Returned None None)) \<and>
   (ong_RunningSnap p \<and> peers ps (ong_ID p) = None \<and> snapWait ps (ong_ID p) = None \<and>
      snapPend ps (ong_ID p) = Some sp \<longrightarrow>
        waitSnapExtension p ps =
          (ps\<lparr>snapPend := (snapPend ps)(ong_ID p := None)\<rparr>, Returned (Some sp) None))"
  by (simp add: waitSnapExtension_def Let_def)

theorem waitSnapExtension_immediate_witness:
  "\<not> ong_RunningSnap peerB \<and>
   waitSnapExtension peerB newPeerSet = (newPeerSet, Returned None None) \<and>
   ong_RunningSnap peerA \<and>
   snapPend (fst (registerSnapExtension snapA newPeerSet)) (ong_ID peerA) = Some snapA \<and>
   waitSnapExtension peerA (fst (registerSnapExtension snapA newPeerSet))
     = (newPeerSet, Returned (Some snapA) None)"
  using waitSnapExtension_immediate [of peerB newPeerSet]
    waitSnapExtension_immediate [of peerA "fst (registerSnapExtension snapA newPeerSet)" snapA]
  by (simp add: registerSnapExtension_def Let_def newPeerSet_def peerA_def peerB_def snapA_def)

text \<open>
  C8. \<open>shouldPreserve\<close> holds for a block exactly when the engine is not the clique
  engine and the engine recovers an author of the block that is the ongerbase or is
  listed in the local accounts of the transaction pool configuration; under the
  clique engine it holds for no block.
\<close>

theorem shouldPreserve_exact:
  "(shouldPreserve s block \<longleftrightarrow>
      \<not> is_Clique (engine s) \<and>
      (\<exists>author. Author (engine s) (Header block) = Some author \<and>
         (author = ongerbase s \<or> author \<in> set (Locals s)))) \<and>
   (is_Clique (engine s) \<longrightarrow> \<not> shouldPreserve s block)"
  by (cases "engine s")
    (auto simp add: shouldPreserve_def isLocalBlock_def isLocalBlock_loop_set
      split: option.splits)

theorem shouldPreserve_exact_witness:
  "shouldPreserve \<lparr>engine = Ongash Some, ongerbase = 5, Locals = [7, 9]\<rparr> \<lparr>Header = 9\<rparr> \<and>
   shouldPreserve \<lparr>engine = Ongash Some, ongerbase = 5, Locals = [7, 9]\<rparr> \<lparr>Header = 5\<rparr> \<and>
   \<not> shouldPreserve \<lparr>engine = Ongash Some, ongerbase = 5, Locals = [7, 9]\<rparr> \<lparr>Header = 8\<rparr> \<and>
   \<not> shouldPreserve \<lparr>engine = Ongash (\<lambda>h. None), ongerbase = 0, Locals = [7, 9]\<rparr>
       \<lparr>Header = (0 :: address)\<rparr> \<and>
   is_Clique (engine \<lparr>engine = Clique Some, ongerbase = 5, Locals = [7, 9]\<rparr>) \<and>
   \<not> shouldPreserve \<lparr>engine = Clique Some, ongerbase = 5, Locals = [7, 9]\<rparr> \<lparr>Header = 5\<rparr>"
  using shouldPreserve_exact [of "\<lparr>engine = Ongash Some, ongerbase = 5, Locals = [7, 9]\<rparr>" "\<lparr>Header = 9\<rparr>"]
    shouldPreserve_exact [of "\<lparr>engine = Clique Some, ongerbase = 5, Locals = [7, 9]\<rparr>" "\<lparr>Header = 5\<rparr>"]
  by (simp add: shouldPreserve_def isLocalBlock_def)

text \<open>
  C9. The counter \<open>snapPeers\<close> equals the number of registered peers that carry a snap
  extension: this holds of the new set, every operation of the set preserves it, so it
  holds after every history of operations; and where it holds, \<open>snapLen\<close> is at most
  \<open>len\<close>.
\<close>

theorem snapPeers_counts_extensions:
  "peerSet_inv newPeerSet \<and>
   (peerSet_inv ps \<longrightarrow>
      peerSet_inv (fst (registerPeer p ext ps)) \<and>
      peerSet_inv (fst (unregisterPeer pid ps)) \<and>
      peerSet_inv (fst (registerSnapExtension sp ps)) \<and>
      peerSet_inv (fst (waitSnapExtension p ps)) \<and>
      peerSet_inv (close ps) \<and>
      snapLen ps = int (card {k. \<exists>q. peers ps k = Some q \<and> snapExt q \<noteq> None}) \<and>
      snapLen ps \<le> len ps) \<and>
   peerSet_inv (run xs newPeerSet) \<and>
   snapLen (run xs newPeerSet) \<le> len (run xs newPeerSet)"
proof -
  have reach: "peerSet_inv (run xs newPeerSet)"
    using peerSet_inv_new by (rule peerSet_inv_run)
  then have reach_le: "snapLen (run xs newPeerSet) \<le> len (run xs newPeerSet)"
    by (rule peerSet_inv_snapLen_le)
  have step: "peerSet_inv (fst (registerPeer p ext ps)) \<and>
      peerSet_inv (fst (unregisterPeer pid ps)) \<and>
      peerSet_inv (fst (registerSnapExtension sp ps)) \<and>
      peerSet_inv (fst (waitSnapExtension p ps)) \<and>
      peerSet_inv (close ps) \<and>
      snapLen ps = int (card {k. \<exists>q. peers ps k = Some q \<and> snapExt q \<noteq> None}) \<and>
      snapLen ps \<le> len ps" if inv: "peerSet_inv ps"
  proof (intro conjI)
    show "snapLen ps = int (card {k. \<exists>q. peers ps k = Some q \<and> snapExt q \<noteq> None})"
      using inv by (simp add: peerSet_inv_def snapLen_def snapKeys_def)
  qed (use inv in \<open>simp_all add: peerSet_inv_registerPeer peerSet_inv_unregisterPeer
        peerSet_inv_registerSnapExtension peerSet_inv_waitSnapExtension peerSet_inv_close
        peerSet_inv_snapLen_le\<close>)
  from peerSet_inv_new step reach reach_le show ?thesis by blast
qed

theorem snapPeers_counts_extensions_witness:
  "peerSet_inv newPeerSet \<and> peerSet_inv setA \<and>
   snapLen setA = 1 \<and> len setA = 1 \<and> snapLen setA \<le> len setA \<and>
   peerSet_inv (fst (unregisterPeer ''a'' setA)) \<and>
   snapLen (fst (unregisterPeer ''a'' setA)) = 0"
proof -
  from snapPeers_counts_extensions [of newPeerSet peerA "Some snapA"]
  have new: "peerSet_inv newPeerSet"
    and "peerSet_inv newPeerSet \<longrightarrow> peerSet_inv (fst (registerPeer peerA (Some snapA) newPeerSet))"
    by blast+
  then have a: "peerSet_inv setA"
    by (simp add: setA_def)
  from snapPeers_counts_extensions [of setA peerA None "''a''"] a
  have le: "snapLen setA \<le> len setA"
    and un: "peerSet_inv (fst (unregisterPeer ''a'' setA))"
    by blast+
  have vals: "snapLen setA = 1" "len setA = 1"
    "snapLen (fst (unregisterPeer ''a'' setA)) = 0"
    by (simp_all add: snapLen_def len_def unregisterPeer_def setA_fields)
  from new a le un vals show ?thesis by blast
qed

text \<open>
  C10, as stated, fails: with a caller parked for the identifier, a snap peer
  registered after \<open>close\<close> is handed to that caller and is not recorded in the
  pending set.
\<close>

theorem registerSnapExtension_closed_counterexample:
  "closed (close (fst (waitSnapExtension peerA newPeerSet))) \<and>
   snap_RunningOng snapA \<and>
   peers (close (fst (waitSnapExtension peerA newPeerSet))) (snap_ID snapA) = None \<and>
   snapPend (close (fst (waitSnapExtension peerA newPeerSet))) (snap_ID snapA) = None \<and>
   snd (snd (registerSnapExtension snapA (close (fst (waitSnapExtension peerA newPeerSet)))))
     = None \<and>
   snapPend (fst (registerSnapExtension snapA
     (close (fst (waitSnapExtension peerA newPeerSet))))) (snap_ID snapA) = None"
  by (simp add: registerSnapExtension_def waitSnapExtension_def close_def Let_def
      newPeerSet_def peerA_def snapA_def)

text \<open>
  C10, amended. On a closed set \<open>registerSnapExtension\<close> still returns nil for every
  snap peer that runs \<open>ong\<close> and whose identifier is neither registered nor pending:
  it records the peer in the pending set when no caller is parked for the identifier,
  and otherwise hands it to the parked caller, removing the caller from \<open>snapWait\<close>
  and recording nothing. Closing changes no answer of \<open>registerSnapExtension\<close>,
  \<open>waitSnapExtension\<close> or \<open>unregisterPeer\<close>; only \<open>registerPeer\<close> reads the flag, and
  refuses on a closed set.
\<close>

theorem registerSnapExtension_ignores_closed:
  "(closed ps \<and> snap_RunningOng sp \<and> peers ps (snap_ID sp) = None \<and>
      snapPend ps (snap_ID sp) = None \<longrightarrow>
        snd (snd (registerSnapExtension sp ps)) = None \<and>
        (snapWait ps (snap_ID sp) = None \<longrightarrow>
           registerSnapExtension sp ps =
             (ps\<lparr>snapPend := (snapPend ps)(snap_ID sp \<mapsto> sp)\<rparr>, None, None)) \<and>
        (snapWait ps (snap_ID sp) \<noteq> None \<longrightarrow>
           registerSnapExtension sp ps =
             (ps\<lparr>snapWait := (snapWait ps)(snap_ID sp := None)\<rparr>,
              Some (snap_ID sp, sp), None))) \<and>
   registerSnapExtension sp (close ps) =
     (close (fst (registerSnapExtension sp ps)), snd (registerSnapExtension sp ps)) \<and>
   waitSnapExtension p (close ps) =
     (close (fst (waitSnapExtension p ps)), snd (waitSnapExtension p ps)) \<and>
   unregisterPeer pid (close ps) =
     (close (fst (unregisterPeer pid ps)), snd (unregisterPeer pid ps)) \<and>
   registerPeer p ext (close ps) = (close ps, Some errPeerSetClosed)"
proof (intro conjI)
  show "closed ps \<and> snap_RunningOng sp \<and> peers ps (snap_ID sp) = None \<and>
      snapPend ps (snap_ID sp) = None \<longrightarrow>
        snd (snd (registerSnapExtension sp ps)) = None \<and>
        (snapWait ps (snap_ID sp) = None \<longrightarrow>
           registerSnapExtension sp ps =
             (ps\<lparr>snapPend := (snapPend ps)(snap_ID sp \<mapsto> sp)\<rparr>, None, None)) \<and>
        (snapWait ps (snap_ID sp) \<noteq> None \<longrightarrow>
           registerSnapExtension sp ps =
             (ps\<lparr>snapWait := (snapWait ps)(snap_ID sp := None)\<rparr>,
              Some (snap_ID sp, sp), None))"
    by (auto simp add: registerSnapExtension_def Let_def split: option.splits)
  show "registerSnapExtension sp (close ps) =
     (close (fst (registerSnapExtension sp ps)), snd (registerSnapExtension sp ps))"
    by (simp add: registerSnapExtension_def close_def Let_def split: option.splits)
  show "waitSnapExtension p (close ps) =
     (close (fst (waitSnapExtension p ps)), snd (waitSnapExtension p ps))"
    by (simp add: waitSnapExtension_def close_def Let_def split: option.splits)
  show "unregisterPeer pid (close ps) =
     (close (fst (unregisterPeer pid ps)), snd (unregisterPeer pid ps))"
    by (simp add: unregisterPeer_def close_def split: option.splits)
  show "registerPeer p ext (close ps) = (close ps, Some errPeerSetClosed)"
    by (simp add: registerPeer_def close_def)
qed

theorem registerSnapExtension_ignores_closed_witness:
  "closed (close newPeerSet) \<and> snap_RunningOng snapA \<and>
   peers (close newPeerSet) (snap_ID snapA) = None \<and>
   snapPend (close newPeerSet) (snap_ID snapA) = None \<and>
   snapWait (close newPeerSet) (snap_ID snapA) = None \<and>
   registerSnapExtension snapA (close newPeerSet) =
     ((close newPeerSet)\<lparr>snapPend := [''a'' \<mapsto> snapA]\<rparr>, None, None) \<and>
   snapWait (close (fst (waitSnapExtension peerA newPeerSet))) (snap_ID snapA) \<noteq> None \<and>
   registerSnapExtension snapA (close (fst (waitSnapExtension peerA newPeerSet))) =
     (close newPeerSet, Some (''a'', snapA), None)"
  using registerSnapExtension_ignores_closed [of "close newPeerSet" snapA]
    registerSnapExtension_ignores_closed
      [of "close (fst (waitSnapExtension peerA newPeerSet))" snapA]
  by (simp add: waitSnapExtension_def close_def newPeerSet_def peerA_def snapA_def)

end
